theory Spec2Isabelle
  imports Complex_Main "HOL-Library.Product_Lexorder" "HOL-Library.AList"
begin

section \<open>Calendar dates (Python's \<open>datetime.date\<close>)\<close>

text \<open>
  The services work on Python \<open>date\<close> and \<open>datetime\<close> values. A date is the triple
  (year, month, day); Python compares dates field by field, which is the lexicographic
  order on triples. The helper functions below follow the standard library's
  \<open>_is_leap\<close>, \<open>_days_before_year\<close>, \<open>_days_in_month\<close>, \<open>_days_before_month\<close>,
  \<open>_ymd2ord\<close>, \<open>_ord2ymd\<close> and \<open>_check_date_fields\<close>.
\<close>

type_synonym date = "int \<times> int \<times> int"

text \<open>A \<open>datetime\<close> (UTC) is a date and the microsecond within that day.\<close>

type_synonym datetime = "date \<times> nat"

datatype reel_status = pending | processing | completed | failed

datatype value_error =
    YearOutOfRange
  | MonthOutOfRange
  | DayOutOfRange
  | NotEnoughPhotos nat nat
  | CannotRetry reel_status
  | ReelNotFound

datatype error =
    ValueError value_error
  | OverflowError
  | DoesNotExist
  | IndexError
  | ZeroDivisionError
  | IntegrityError

definition MINYEAR :: int where "MINYEAR = 1"
definition MAXYEAR :: int where "MAXYEAR = 9999"
definition MAXORDINAL :: int where "MAXORDINAL = 3652059"

definition DAYS_IN_MONTH :: "int list" where
  "DAYS_IN_MONTH = [-1, 31, 28, 31, 30, 31, 30, 31, 31, 30, 31, 30, 31]"

definition DAYS_BEFORE_MONTH :: "int list" where
  "DAYS_BEFORE_MONTH = [-1, 0, 31, 59, 90, 120, 151, 181, 212, 243, 273, 304, 334]"

definition is_leap :: "int \<Rightarrow> bool" where
  "is_leap year \<longleftrightarrow> year mod 4 = 0 \<and> (year mod 100 \<noteq> 0 \<or> year mod 400 = 0)"

definition days_before_year :: "int \<Rightarrow> int" where
  "days_before_year year = (let y = year - 1 in y * 365 + y div 4 - y div 100 + y div 400)"

definition days_in_month :: "int \<Rightarrow> int \<Rightarrow> int" where
  "days_in_month year month =
     (if month = 2 \<and> is_leap year then 29 else DAYS_IN_MONTH ! nat month)"

definition days_before_month :: "int \<Rightarrow> int \<Rightarrow> int" where
  "days_before_month year month =
     DAYS_BEFORE_MONTH ! nat month + (if month > 2 \<and> is_leap year then 1 else 0)"

definition ymd2ord :: "int \<Rightarrow> int \<Rightarrow> int \<Rightarrow> int" where
  "ymd2ord year month day = days_before_year year + days_before_month year month + day"

definition DI400Y :: int where "DI400Y = 146097"
definition DI100Y :: int where "DI100Y = 36524"
definition DI4Y :: int where "DI4Y = 1461"

definition ord2ymd :: "int \<Rightarrow> date" where
  "ord2ymd n0 =
     (let n = n0 - 1;
          n400 = n div DI400Y; n = n mod DI400Y;
          year = n400 * 400 + 1;
          n100 = n div DI100Y; n = n mod DI100Y;
          n4 = n div DI4Y; n = n mod DI4Y;
          n1 = n div 365; n = n mod 365;
          year = year + (n100 * 100 + n4 * 4 + n1)
      in if n1 = 4 \<or> n100 = 4 then (year - 1, 12, 31)
         else
           let leapyear = (n1 = 3 \<and> (n4 \<noteq> 24 \<or> n100 = 3));
               month = (n + 50) div 32;
               preceding = DAYS_BEFORE_MONTH ! nat month
                             + (if month > 2 \<and> leapyear then 1 else 0)
           in if preceding > n
              then let month = month - 1;
                       preceding = preceding
                          - (DAYS_IN_MONTH ! nat month + (if month = 2 \<and> leapyear then 1 else 0))
                   in (year, month, n - preceding + 1)
              else (year, month, n - preceding + 1))"

text \<open>\<open>date(year, month, day)\<close>: the constructor validates its fields.\<close>

definition check_date_fields :: "int \<Rightarrow> int \<Rightarrow> int \<Rightarrow> error + date" where
  "check_date_fields year month day =
     (if \<not> (MINYEAR \<le> year \<and> year \<le> MAXYEAR) then Inl (ValueError YearOutOfRange)
      else if \<not> (1 \<le> month \<and> month \<le> 12) then Inl (ValueError MonthOutOfRange)
      else if \<not> (1 \<le> day \<and> day \<le> days_in_month year month) then Inl (ValueError DayOutOfRange)
      else Inr (year, month, day))"

text \<open>\<open>d.replace(year=y)\<close> builds a new date from the changed fields, so it raises
  \<open>ValueError\<close> when the day does not exist in the new year.\<close>

definition replace_year :: "date \<Rightarrow> int \<Rightarrow> error + date" where
  "replace_year d year = (case d of (_, month, day) \<Rightarrow> check_date_fields year month day)"

definition toordinal :: "date \<Rightarrow> int" where
  "toordinal d = (case d of (year, month, day) \<Rightarrow> ymd2ord year month day)"

text \<open>\<open>d + timedelta(days=n)\<close>; \<open>d - timedelta(days=n)\<close> is \<open>date_add d (- n)\<close>.\<close>

definition date_add :: "date \<Rightarrow> int \<Rightarrow> error + date" where
  "date_add d days =
     (let o' = toordinal d + days
      in if 0 < o' \<and> o' \<le> MAXORDINAL then Inr (ord2ymd o') else Inl OverflowError)"

text \<open>\<open>(a - b).days\<close> for two dates.\<close>

definition date_diff_days :: "date \<Rightarrow> date \<Rightarrow> int" where
  "date_diff_days a b = toordinal a - toordinal b"

definition dt_date :: "datetime \<Rightarrow> date" where
  "dt_date t = fst t"

definition date_year :: "date \<Rightarrow> int" where "date_year d = fst d"
definition date_month :: "date \<Rightarrow> int" where "date_month d = fst (snd d)"
definition date_day :: "date \<Rightarrow> int" where "date_day d = snd (snd d)"

section \<open>Photos (\<open>apps.images.models.Image\<close>)\<close>

text \<open>
  Only the columns the memory services read are kept. \<open>width\<close> and \<open>height\<close> are nullable
  \<open>IntegerField\<close>s, \<open>taken_at\<close> is a nullable \<open>DateTimeField\<close>. \<open>album_count\<close> stands for
  the query \<open>photo.albums.count()\<close> and \<open>share_count\<close> for
  \<open>PublicShare.objects.filter(album__images=photo).count()\<close>: both are row counts.
\<close>

record image =
  image_id :: nat
  image_user :: nat
  width :: "int option"
  height :: "int option"
  taken_at :: "datetime option"
  created_at :: datetime
  album_count :: nat
  share_count :: nat

section \<open>Significance scoring (\<open>MemoryEngine\<close>)\<close>

definition default_significance_threshold :: real where
  "default_significance_threshold = 1.0"

definition max_photos_per_memory :: nat where
  "max_photos_per_memory = 20"

definition date_expansion_days :: int where
  "date_expansion_days = 7"

text \<open>
  \<open>score_photo_significance\<close>; the first argument is \<open>timezone.now().date()\<close>. Python's
  \<open>photo.width and photo.height\<close> is false for \<open>None\<close> and for \<open>0\<close>. Floats are read as
  real numbers.
\<close>

definition score_photo_significance :: "date \<Rightarrow> image \<Rightarrow> real" where
  "score_photo_significance today photo =
     (let score = 0.0;
          score = score + 1.0;
          score = score + real (share_count photo) * 2.0;
          score = score + 0.5;
          score = score + real (album_count photo) * 1.5;
          score = (case (width photo, height photo) of
                     (Some w, Some h) \<Rightarrow>
                        if w \<noteq> 0 \<and> h \<noteq> 0
                        then let megapixels = real_of_int (w * h) / 1000000
                             in score + min (megapixels * 0.1) 2.0
                        else score
                   | _ \<Rightarrow> score);
          score = (case taken_at photo of
                     Some t \<Rightarrow>
                        let years_ago = real_of_int (date_diff_days today (dt_date t)) / 365.25;
                            recency_bonus = max 0 (2.0 - years_ago * 0.1)
                        in score + recency_bonus
                   | None \<Rightarrow> score)
      in score)"

text \<open>Python's \<open>list.sort(key=f, reverse=True)\<close>: descending and stable (elements with equal
  keys keep their original order).\<close>

definition sort_desc :: "('a \<Rightarrow> 'k::linorder) \<Rightarrow> 'a list \<Rightarrow> 'a list" where
  "sort_desc f xs = rev (sort_key f (rev xs))"

text \<open>The scoring loop of \<open>_score_photos_significance\<close>.\<close>

fun score_loop :: "date \<Rightarrow> image list \<Rightarrow> (image \<times> real) list" where
  "score_loop today [] = []"
| "score_loop today (photo # photos) =
     (let score = score_photo_significance today photo
      in if score \<ge> default_significance_threshold
         then (photo, score) # score_loop today photos
         else score_loop today photos)"

definition score_photos_significance :: "date \<Rightarrow> image list \<Rightarrow> (image \<times> real) list" where
  "score_photos_significance today photos =
     (let scored_photos = score_loop today photos;
          scored_photos = sort_desc snd scored_photos
      in take max_photos_per_memory scored_photos)"

text \<open>Photos whose stored width and height, when both are present, have a product that is
  not negative; so it is for pixel counts.\<close>

definition area_nonneg :: "image \<Rightarrow> bool" where
  "area_nonneg photo \<longleftrightarrow>
     (case (width photo, height photo) of (Some w, Some h) \<Rightarrow> 0 \<le> w * h | _ \<Rightarrow> True)"

section \<open>Database state\<close>

text \<open>
  \<open>Memory\<close> and \<open>MemoryPhoto\<close> rows (the columns the discovery path writes), and the
  tables and the cache the services read and write. The cache maps the key
  \<open>daily_memories:{user_id}:{target_date}\<close> to the cached list of memory ids.
  A \<open>FlashbackReel\<close> row carries the ids of its photos.
\<close>

record memory =
  memory_id :: nat
  memory_user :: nat
  target_date :: date
  memory_significance_score :: real

record memory_photo =
  mp_memory :: nat
  mp_photo :: nat
  mp_order :: nat
  mp_significance_score :: real

record reel =
  reel_id :: nat
  reel_user :: nat
  title :: string
  duration :: int
  theme :: string
  status :: reel_status
  start_date :: date
  end_date :: date
  photo_count :: nat
  reel_photos :: "nat list"
  has_video_file :: bool
  completed_at :: "datetime option"
  error_message :: string

record memory_preferences =
  enable_notifications :: bool
  feature_enabled :: bool

record memory_notification =
  notification_user :: nat
  notification_memory :: nat
  sent_at :: datetime

text \<open>
  \<open>task_queue\<close> holds the Celery invocations of \<open>generate_flashback_reel_video\<close> that
  are waiting to run, as (reel id, \<open>request.retries\<close>). \<open>transition_log\<close> records, for
  every save of a reel's \<open>status\<close> column, the reel id, the stored status before the save
  and the status after it; it is what the state machine property speaks about.
\<close>

record db =
  users :: "nat list"
  images :: "image list"
  memories :: "memory list"
  memory_photos :: "memory_photo list"
  next_memory_id :: nat
  cache :: "nat \<times> date \<Rightarrow> nat list option"
  reels :: "nat \<Rightarrow> reel option"
  next_reel_id :: nat
  task_queue :: "(nat \<times> nat) list"
  transition_log :: "(nat \<times> reel_status \<times> reel_status) list"
  preferences :: "nat \<Rightarrow> memory_preferences option"
  notifications :: "memory_notification list"

section \<open>Memory discovery (\<open>MemoryEngine\<close>)\<close>

text \<open>The sort key of \<open>order_by('taken_at')\<close>; the queries below only sort rows whose
  \<open>taken_at\<close> is set.\<close>

definition taken_key :: "image \<Rightarrow> datetime" where
  "taken_key p = (case taken_at p of Some t \<Rightarrow> t | None \<Rightarrow> ((0, 0, 0), 0))"

definition find_photos_by_date :: "db \<Rightarrow> nat \<Rightarrow> date \<Rightarrow> image list" where
  "find_photos_by_date db user target =
     (let photos = sort_desc taken_key
            (filter (\<lambda>p. image_user p = user \<and>
                       (case taken_at p of
                          None \<Rightarrow> False
                        | Some t \<Rightarrow> date_month (dt_date t) = date_month target
                                   \<and> date_day (dt_date t) = date_day target
                                   \<and> date_year (dt_date t) < date_year target))
                    (images db))
      in take 50 photos)"

text \<open>The filter of the range queries (\<open>taken_at__date__gte\<close>, \<open>taken_at__date__lte\<close>): the
  user's photos whose capture date lies between the two dates, in table order. A row without
  \<open>taken_at\<close> matches no such filter.\<close>

definition photos_in_range :: "db \<Rightarrow> nat \<Rightarrow> date \<Rightarrow> date \<Rightarrow> image list" where
  "photos_in_range db user lo hi =
     filter (\<lambda>p. image_user p = user \<and>
                (case taken_at p of
                   None \<Rightarrow> False
                 | Some t \<Rightarrow> lo \<le> dt_date t \<and> dt_date t \<le> hi))
            (images db)"

text \<open>The loop \<open>for year_offset in range(1, 10)\<close> of \<open>_find_photos_with_date_expansion\<close>,
  over the offsets still to visit, with the list collected so far.\<close>

fun expansion_loop ::
  "db \<Rightarrow> nat \<Rightarrow> date \<Rightarrow> date \<Rightarrow> date \<Rightarrow> int list \<Rightarrow> image list \<Rightarrow> error + image list" where
  "expansion_loop db user target start_d end_d [] photos = Inr photos"
| "expansion_loop db user target start_d end_d (year_offset # rest) photos =
     (case replace_year start_d (date_year target - year_offset) of
        Inl e \<Rightarrow> Inl e
      | Inr year_start \<Rightarrow>
         (case replace_year end_d (date_year target - year_offset) of
            Inl e \<Rightarrow> Inl e
          | Inr year_end \<Rightarrow>
              let year_photos = sort_desc taken_key (photos_in_range db user year_start year_end);
                  photos = photos @ take 10 year_photos
              in if length photos \<ge> 30 then Inr photos
                 else expansion_loop db user target start_d end_d rest photos))"

definition find_photos_with_date_expansion :: "db \<Rightarrow> nat \<Rightarrow> date \<Rightarrow> error + image list" where
  "find_photos_with_date_expansion db user target =
     (case date_add target (- date_expansion_days) of
        Inl e \<Rightarrow> Inl e
      | Inr start_d \<Rightarrow>
         (case date_add target date_expansion_days of
            Inl e \<Rightarrow> Inl e
          | Inr end_d \<Rightarrow>
              expansion_loop db user target start_d end_d [1, 2, 3, 4, 5, 6, 7, 8, 9] []))"

text \<open>
  \<open>_create_memory\<close>. \<open>Memory.objects.create\<close> is subject to
  \<open>unique_together = ['user', 'target_date']\<close>; the new row gets the next id. The
  \<open>MemoryPhoto\<close> rows are written in the order of \<open>scored_photos\<close>; they belong to the new
  memory and to distinct \<open>Image\<close> rows, so their own uniqueness constraint is met.
\<close>

definition create_memory ::
  "db \<Rightarrow> nat \<Rightarrow> date \<Rightarrow> (image \<times> real) list \<Rightarrow> error + (memory \<times> db)" where
  "create_memory db user target scored_photos =
     (let total_score = sum_list (map snd scored_photos);
          avg_score = (if scored_photos \<noteq> [] then total_score / real (length scored_photos) else 0.0)
      in if \<exists>m \<in> set (memories db). memory_user m = user \<and> target_date m = target
         then Inl IntegrityError
         else
           let mem = \<lparr>memory_id = next_memory_id db, memory_user = user, target_date = target,
                      memory_significance_score = avg_score\<rparr>;
               rows = map (\<lambda>(order, (photo, score)).
                            \<lparr>mp_memory = memory_id mem, mp_photo = image_id photo,
                             mp_order = order, mp_significance_score = score\<rparr>)
                          (enumerate 0 scored_photos)
           in Inr (mem, db\<lparr>memories := memories db @ [mem],
                           memory_photos := memory_photos db @ rows,
                           next_memory_id := Suc (next_memory_id db)\<rparr>))"

definition cache_set :: "nat \<times> date \<Rightarrow> nat list \<Rightarrow> db \<Rightarrow> db" where
  "cache_set key v db = db\<lparr>cache := (cache db)(key \<mapsto> v)\<rparr>"

text \<open>
  \<open>discover_daily_memories\<close>, with \<open>timezone.now().date()\<close> as the argument \<open>today\<close>.
  \<open>.first()\<close> on the unordered query set takes the row with the smallest primary key.
  An exception leaves the database as it was: every raise precedes the first write.
\<close>

definition discover_daily_memories ::
  "db \<Rightarrow> nat \<Rightarrow> date \<Rightarrow> date \<Rightarrow> error + (memory list \<times> db)" where
  "discover_daily_memories db user_id target today =
     (let cache_key = (user_id, target)
      in case cache db cache_key of
           Some cached_memories \<Rightarrow>
             if cached_memories \<noteq> []
             then Inr (filter (\<lambda>m. memory_id m \<in> set cached_memories) (memories db), db)
             else Inr ([], db)
         | None \<Rightarrow>
             if user_id \<notin> set (users db) then Inl DoesNotExist
             else
               case sort_key memory_id
                      (filter (\<lambda>m. memory_user m = user_id \<and> target_date m = target) (memories db)) of
                 existing_memory # _ \<Rightarrow>
                   Inr ([existing_memory], cache_set cache_key [memory_id existing_memory] db)
               | [] \<Rightarrow>
                   let photos = find_photos_by_date db user_id target
                   in case (if photos = [] then find_photos_with_date_expansion db user_id target
                            else Inr photos) of
                        Inl e \<Rightarrow> Inl e
                      | Inr photos \<Rightarrow>
                          if photos = [] then Inr ([], cache_set cache_key [] db)
                          else
                            let scored_photos = score_photos_significance today photos
                            in if scored_photos \<noteq> []
                               then (case create_memory db user_id target scored_photos of
                                       Inl e \<Rightarrow> Inl e
                                     | Inr (mem, db') \<Rightarrow>
                                         Inr ([mem], cache_set cache_key [memory_id mem] db'))
                               else Inr ([], cache_set cache_key [] db))"

section \<open>Reel photo selection (\<open>FlashbackReelService\<close>)\<close>

definition min_photos_for_reel :: nat where "min_photos_for_reel = 10"
definition max_photos_per_reel :: nat where "max_photos_per_reel = 20"
definition default_duration :: int where "default_duration = 30"

definition supported_themes :: "string list" where
  "supported_themes = [''classic'', ''modern'', ''vintage'', ''cinematic'']"

definition can_generate_reel :: "db \<Rightarrow> nat \<Rightarrow> date \<Rightarrow> date \<Rightarrow> bool" where
  "can_generate_reel db user_id start_d end_d \<longleftrightarrow>
     length (photos_in_range db user_id start_d end_d) \<ge> min_photos_for_reel"

text \<open>\<open>photo.taken_at.date() if photo.taken_at else photo.created_at.date()\<close> and
  \<open>p.taken_at or p.created_at\<close>.\<close>

definition photo_date :: "image \<Rightarrow> date" where
  "photo_date photo =
     (case taken_at photo of Some t \<Rightarrow> dt_date t | None \<Rightarrow> dt_date (created_at photo))"

definition chrono_key :: "image \<Rightarrow> datetime" where
  "chrono_key p = (case taken_at p of Some t \<Rightarrow> t | None \<Rightarrow> created_at p)"

text \<open>The dictionary \<open>photos_by_date\<close> is an association list in insertion order; reading
  a \<open>defaultdict(list)\<close> at a missing key gives the empty list.\<close>

type_synonym scored = "image \<times> real"

definition lookup_default :: "(date \<times> scored list) list \<Rightarrow> date \<Rightarrow> scored list" where
  "lookup_default photos_by_date k =
     (case map_of photos_by_date k of None \<Rightarrow> [] | Some l \<Rightarrow> l)"

fun group_by_date :: "scored list \<Rightarrow> (date \<times> scored list) list \<Rightarrow> (date \<times> scored list) list" where
  "group_by_date [] photos_by_date = photos_by_date"
| "group_by_date ((photo, score) # rest) photos_by_date =
     group_by_date rest
       (AList.update (photo_date photo)
          (lookup_default photos_by_date (photo_date photo) @ [(photo, score)])
          photos_by_date)"

text \<open>The loop that appends \<open>date_photos[0][0]\<close> of every date; indexing an empty list
  raises.\<close>

fun best_per_date :: "(date \<times> scored list) list \<Rightarrow> date list \<Rightarrow> error + image list" where
  "best_per_date photos_by_date [] = Inr []"
| "best_per_date photos_by_date (date_key # rest) =
     (case sort_desc snd (lookup_default photos_by_date date_key) of
        [] \<Rightarrow> Inl IndexError
      | (photo, _) # _ \<Rightarrow>
          (case best_per_date photos_by_date rest of
             Inl e \<Rightarrow> Inl e
           | Inr selected \<Rightarrow> Inr (photo # selected)))"

text \<open>\<open>[dates[i * date_step] for i in range(count)]\<close>.\<close>

fun pick_dates :: "date list \<Rightarrow> nat \<Rightarrow> nat list \<Rightarrow> error + date list" where
  "pick_dates dates date_step [] = Inr []"
| "pick_dates dates date_step (i # rest) =
     (if i * date_step < length dates
      then (case pick_dates dates date_step rest of
              Inl e \<Rightarrow> Inl e
            | Inr ds \<Rightarrow> Inr (dates ! (i * date_step) # ds))
      else Inl IndexError)"

definition apply_temporal_distribution :: "scored list \<Rightarrow> nat \<Rightarrow> error + image list" where
  "apply_temporal_distribution scored_photos count =
     (if length scored_photos \<le> count then Inr (map fst scored_photos)
      else
        let photos_by_date = group_by_date scored_photos [];
            dates = sort (map fst photos_by_date)
        in if length dates \<le> count
           then (case best_per_date photos_by_date dates of
                   Inl e \<Rightarrow> Inl e
                 | Inr selected \<Rightarrow>
                     let remaining_count = count - length selected
                     in if remaining_count > 0
                        then let all_remaining =
                                   concat (map (\<lambda>date_key. drop 1 (lookup_default photos_by_date date_key))
                                              dates);
                                 all_remaining = sort_desc snd all_remaining
                             in Inr (selected @ map fst (take remaining_count all_remaining))
                        else Inr selected)
           else if count = 0 then Inl ZeroDivisionError
           else
             let date_step = length dates div count
             in (case pick_dates dates date_step [0..<count] of
                   Inl e \<Rightarrow> Inl e
                 | Inr selected_dates \<Rightarrow> best_per_date photos_by_date selected_dates))"

definition advanced_photo_selection :: "date \<Rightarrow> image list \<Rightarrow> nat \<Rightarrow> error + image list" where
  "advanced_photo_selection today photos count =
     (let scored_photos = map (\<lambda>photo. (photo, score_photo_significance today photo)) photos;
          scored_photos = sort_desc snd scored_photos
      in case apply_temporal_distribution scored_photos count of
           Inl e \<Rightarrow> Inl e
         | Inr selected_photos \<Rightarrow> Inr (sort_key chrono_key selected_photos))"

text \<open>\<open>select_representative_photos\<close>; \<open>count\<close> is optional and clamped into
  [\<open>min_photos_for_reel\<close>, \<open>max_photos_per_reel\<close>].\<close>

definition clamp_count :: "int option \<Rightarrow> nat" where
  "clamp_count count =
     (let count = (case count of None \<Rightarrow> int max_photos_per_reel | Some c \<Rightarrow> c)
      in nat (max (int min_photos_for_reel) (min count (int max_photos_per_reel))))"

definition select_representative_photos ::
  "db \<Rightarrow> date \<Rightarrow> nat \<Rightarrow> date \<Rightarrow> date \<Rightarrow> int option \<Rightarrow> error + image list" where
  "select_representative_photos db today user_id start_d end_d count =
     (let count = clamp_count count;
          photos = sort_key taken_key (photos_in_range db user_id start_d end_d)
      in if length photos \<le> count then Inr photos
         else advanced_photo_selection today photos count)"

section \<open>Reel lifecycle (\<open>FlashbackReelService\<close>, \<open>FlashbackReel\<close>, the Celery task)\<close>

text \<open>
  \<open>reel.save(update_fields=[...])\<close> writes the named columns of the in-memory object to
  the stored row. A save that writes \<open>status\<close> is recorded in \<open>transition_log\<close>.
\<close>

definition save_status :: "reel \<Rightarrow> db \<Rightarrow> db" where
  "save_status r db =
     (case reels db (reel_id r) of
        None \<Rightarrow> db
      | Some row \<Rightarrow>
          db\<lparr>reels := (reels db)(reel_id r \<mapsto> row\<lparr>status := status r\<rparr>),
             transition_log := transition_log db @ [(reel_id r, status row, status r)]\<rparr>)"

definition save_status_error_message :: "reel \<Rightarrow> db \<Rightarrow> db" where
  "save_status_error_message r db =
     (case reels db (reel_id r) of
        None \<Rightarrow> db
      | Some row \<Rightarrow>
          db\<lparr>reels := (reels db)(reel_id r \<mapsto>
                         row\<lparr>status := status r, error_message := error_message r\<rparr>),
             transition_log := transition_log db @ [(reel_id r, status row, status r)]\<rparr>)"

definition save_status_completed_at :: "reel \<Rightarrow> db \<Rightarrow> db" where
  "save_status_completed_at r db =
     (case reels db (reel_id r) of
        None \<Rightarrow> db
      | Some row \<Rightarrow>
          db\<lparr>reels := (reels db)(reel_id r \<mapsto>
                         row\<lparr>status := status r, completed_at := completed_at r\<rparr>),
             transition_log := transition_log db @ [(reel_id r, status row, status r)]\<rparr>)"

definition mark_completed :: "reel \<Rightarrow> datetime \<Rightarrow> db \<Rightarrow> reel \<times> db" where
  "mark_completed r now db =
     (let r = r\<lparr>status := completed, completed_at := Some now\<rparr>
      in (r, save_status_completed_at r db))"

definition mark_failed :: "reel \<Rightarrow> string \<Rightarrow> db \<Rightarrow> reel \<times> db" where
  "mark_failed r msg db =
     (let r = r\<lparr>status := failed, error_message := msg\<rparr>
      in (r, save_status_error_message r db))"

text \<open>\<open>start_reel_generation\<close>: \<open>generate_flashback_reel_video.delay(reel_id)\<close> puts a first
  invocation (\<open>request.retries = 0\<close>) on the queue; the task id it returns is opaque.\<close>

definition start_reel_generation :: "nat \<Rightarrow> db \<Rightarrow> db" where
  "start_reel_generation rid db = db\<lparr>task_queue := task_queue db @ [(rid, 0)]\<rparr>"

text \<open>\<open>create_reel_request\<close>. Both raises (the missing user, too few photos) come before
  \<open>FlashbackReel.objects.create\<close>, so an error leaves the database as it was.\<close>

definition create_reel_request ::
  "db \<Rightarrow> date \<Rightarrow> nat \<Rightarrow> string \<Rightarrow> date \<Rightarrow> date \<Rightarrow> string \<Rightarrow> int option \<Rightarrow> bool
     \<Rightarrow> error + (reel \<times> db)" where
  "create_reel_request db today user_id ttl start_d end_d thm dur async_processing =
     (if user_id \<notin> set (users db) then Inl DoesNotExist
      else
        let thm = (if thm \<notin> set supported_themes then ''classic'' else thm);
            dur = (case dur of None \<Rightarrow> default_duration | Some d \<Rightarrow> d);
            dur = max 10 (min dur 300)
        in case select_representative_photos db today user_id start_d end_d None of
             Inl e \<Rightarrow> Inl e
           | Inr photos \<Rightarrow>
               if length photos < min_photos_for_reel
               then Inl (ValueError (NotEnoughPhotos min_photos_for_reel (length photos)))
               else
                 let r = \<lparr>reel_id = next_reel_id db, reel_user = user_id, title = ttl,
                          duration = dur, theme = thm, status = pending,
                          start_date = start_d, end_date = end_d,
                          photo_count = length photos, reel_photos = map image_id photos,
                          has_video_file = False, completed_at = None, error_message = []\<rparr>;
                     db = db\<lparr>reels := (reels db)(reel_id r \<mapsto> r),
                             next_reel_id := Suc (next_reel_id db)\<rparr>;
                     db = (if async_processing then start_reel_generation (reel_id r) db else db)
                 in Inr (r, db))"

definition cancel_reel_generation :: "nat \<Rightarrow> db \<Rightarrow> bool \<times> db" where
  "cancel_reel_generation rid db =
     (case reels db rid of
        None \<Rightarrow> (False, db)
      | Some r \<Rightarrow>
          if status r \<in> {pending, processing}
          then let r = r\<lparr>status := failed, error_message := ''Cancelled by user''\<rparr>
               in (True, save_status_error_message r db)
          else (False, db))"

definition retry_reel_generation :: "nat \<Rightarrow> db \<Rightarrow> error + db" where
  "retry_reel_generation rid db =
     (case reels db rid of
        None \<Rightarrow> Inl (ValueError ReelNotFound)
      | Some r \<Rightarrow>
          if status r = failed
          then let r = r\<lparr>status := pending, error_message := []\<rparr>;
                   db = save_status_error_message r db
               in Inr (start_reel_generation rid db)
          else Inl (ValueError (CannotRetry (status r))))"

text \<open>
  The Celery task \<open>generate_flashback_reel_video\<close> (\<open>max_retries=3\<close>). Its arguments are
  \<open>self.request.retries\<close>, what the rendering steps inside the \<open>try\<close> block do in this
  run (they succeed or raise an exception with the given text), the current time and the
  reel id. The result is the returned dictionary, or the \<open>Retry\<close> that \<open>self.retry\<close>
  raises for the worker, with its countdown.
\<close>

datatype render_outcome = Rendered | Raises string

datatype task_result =
    TaskSuccess nat
  | TaskError string
  | TaskFailed string nat
  | Retry nat

definition max_retries :: nat where "max_retries = 3"

definition generate_flashback_reel_video ::
  "nat \<Rightarrow> render_outcome \<Rightarrow> datetime \<Rightarrow> nat \<Rightarrow> db \<Rightarrow> task_result \<times> db" where
  "generate_flashback_reel_video retries outcome now rid db =
     (case reels db rid of
        None \<Rightarrow> (TaskError ''Reel not found'', db)
      | Some r \<Rightarrow>
          let r = r\<lparr>status := processing\<rparr>;
              db = save_status r db;
              photos = reel_photos r
          in if photos = []
             then let (r, db) = mark_failed r ''No photos available for reel generation'' db
                  in (TaskError ''No photos available'', db)
             else
               (case outcome of
                  Rendered \<Rightarrow>
                    let r = r\<lparr>has_video_file := True\<rparr>;
                        (r, db) = mark_completed r now db
                    in (TaskSuccess rid, db)
                | Raises exc \<Rightarrow>
                    let db = (case reels db rid of
                                Some r' \<Rightarrow> snd (mark_failed r' (''Video generation failed: '' @ exc) db)
                              | None \<Rightarrow> db)
                    in if retries < max_retries
                       then (Retry (60 * 2 ^ retries), db)
                       else (TaskFailed exc retries, db)))"

text \<open>
  The task writes the status twice, and other requests can run between the two saves. The
  two parts of the task are therefore also given as steps of their own: \<open>task_begin\<close> reads
  the reel and saves \<open>processing\<close>; \<open>task_finish\<close> is the rest of the task, run on the reel
  object the task holds in memory. The whole task is the first step followed by the second
  (lemma \<open>generate_flashback_reel_video_steps\<close>).
\<close>

definition task_begin :: "nat \<Rightarrow> db \<Rightarrow> task_result + (reel \<times> db)" where
  "task_begin rid db =
     (case reels db rid of
        None \<Rightarrow> Inl (TaskError ''Reel not found'')
      | Some r \<Rightarrow>
          let r = r\<lparr>status := processing\<rparr>;
              db = save_status r db
          in Inr (r, db))"

definition task_finish ::
  "nat \<Rightarrow> render_outcome \<Rightarrow> datetime \<Rightarrow> nat \<Rightarrow> reel \<Rightarrow> db \<Rightarrow> task_result \<times> db" where
  "task_finish retries outcome now rid r db =
     (let photos = reel_photos r
      in if photos = []
         then let (r, db) = mark_failed r ''No photos available for reel generation'' db
              in (TaskError ''No photos available'', db)
         else
           (case outcome of
              Rendered \<Rightarrow>
                let r = r\<lparr>has_video_file := True\<rparr>;
                    (r, db) = mark_completed r now db
                in (TaskSuccess rid, db)
            | Raises exc \<Rightarrow>
                let db = (case reels db rid of
                            Some r' \<Rightarrow> snd (mark_failed r' (''Video generation failed: '' @ exc) db)
                          | None \<Rightarrow> db)
                in if retries < max_retries
                   then (Retry (60 * 2 ^ retries), db)
                   else (TaskFailed exc retries, db)))"

text \<open>
  The system: the database and the task runs in progress, each with its reel id, its
  \<open>request.retries\<close> and the reel object it holds. The worker starts the invocation at
  position \<open>i\<close> of the queue (\<open>StartTask\<close>) and later finishes a run in progress
  (\<open>FinishTask\<close>, with what the rendering steps do and the current time); when the task asks
  for a retry, the invocation is queued again with \<open>request.retries + 1\<close>. Cancel and retry
  requests can come at any point, also between the start and the end of a run, and several
  runs for one reel can be in progress.
\<close>

type_synonym running_task = "nat \<times> nat \<times> reel"

type_synonym system = "db \<times> running_task list"

datatype operation =
    StartTask nat
  | FinishTask nat render_outcome datetime
  | Cancel nat
  | RetryReel nat

definition start_task :: "nat \<Rightarrow> system \<Rightarrow> system" where
  "start_task i sys =
     (case sys of (db, running) \<Rightarrow>
        if i < length (task_queue db)
        then
          let (rid, retries) = task_queue db ! i;
              db = db\<lparr>task_queue := take i (task_queue db) @ drop (Suc i) (task_queue db)\<rparr>
          in (case task_begin rid db of
                Inl res \<Rightarrow> (db, running)
              | Inr (r, db) \<Rightarrow> (db, running @ [(rid, retries, r)]))
        else (db, running))"

definition finish_task :: "nat \<Rightarrow> render_outcome \<Rightarrow> datetime \<Rightarrow> system \<Rightarrow> system" where
  "finish_task j outcome now sys =
     (case sys of (db, running) \<Rightarrow>
        if j < length running
        then
          let (rid, retries, r) = running ! j;
              running = take j running @ drop (Suc j) running;
              (res, db) = task_finish retries outcome now rid r db
          in (case res of
                Retry countdown \<Rightarrow> (db\<lparr>task_queue := task_queue db @ [(rid, Suc retries)]\<rparr>, running)
              | _ \<Rightarrow> (db, running))
        else (db, running))"

definition apply_operation :: "operation \<Rightarrow> system \<Rightarrow> system" where
  "apply_operation op sys =
     (case op of
        StartTask i \<Rightarrow> start_task i sys
      | FinishTask j outcome now \<Rightarrow> finish_task j outcome now sys
      | Cancel rid \<Rightarrow> (snd (cancel_reel_generation rid (fst sys)), snd sys)
      | RetryReel rid \<Rightarrow>
          (case retry_reel_generation rid (fst sys) of
             Inl e \<Rightarrow> sys
           | Inr db' \<Rightarrow> (db', snd sys)))"

fun run_operations :: "operation list \<Rightarrow> system \<Rightarrow> system" where
  "run_operations [] sys = sys"
| "run_operations (op # ops) sys = run_operations ops (apply_operation op sys)"


section \<open>Notification throttling (\<open>MemoryNotificationService\<close>)\<close>

definition max_notifications_per_day :: nat where "max_notifications_per_day = 3"

text \<open>\<open>should_send_notification\<close>; \<open>now\<close> is \<open>timezone.now()\<close>.\<close>

definition should_send_notification :: "db \<Rightarrow> nat \<Rightarrow> memory \<Rightarrow> datetime \<Rightarrow> bool" where
  "should_send_notification db user_id mem now =
     (if (case preferences db user_id of
            Some prefs \<Rightarrow> \<not> enable_notifications prefs \<or> \<not> feature_enabled prefs
          | None \<Rightarrow> False)
      then False
      else
        let existing_notification =
              filter (\<lambda>n. notification_user n = user_id \<and> notification_memory n = memory_id mem)
                     (notifications db)
        in if existing_notification \<noteq> [] then False
           else
             let today_start = (dt_date now, 0);
                 today_notifications =
                   length (filter (\<lambda>n. notification_user n = user_id \<and> sent_at n \<ge> today_start)
                                  (notifications db))
             in if today_notifications \<ge> max_notifications_per_day then False
                else if memory_significance_score mem < 2.0 then False
                else True)"

section \<open>Derived views of the database\<close>

definition memory_rows_for :: "db \<Rightarrow> nat \<Rightarrow> date \<Rightarrow> memory list" where
  "memory_rows_for db user target =
     filter (\<lambda>m. memory_user m = user \<and> target_date m = target) (memories db)"

text \<open>Primary keys: the ids of the \<open>Memory\<close> rows are distinct and below the next id.\<close>

definition memory_ids_wf :: "db \<Rightarrow> bool" where
  "memory_ids_wf db \<longleftrightarrow>
     distinct (map memory_id (memories db)) \<and>
     (\<forall>m \<in> set (memories db). memory_id m < next_memory_id db)"

definition photos_of_memory :: "db \<Rightarrow> nat \<Rightarrow> nat list" where
  "photos_of_memory db mid =
     map mp_photo (filter (\<lambda>r. mp_memory r = mid) (memory_photos db))"





text \<open>
  One invocation followed through its retries: the worker runs the task again, with
  \<open>request.retries + 1\<close>, for as long as the task raises \<open>Retry\<close>. \<open>outcome k\<close> is what the
  rendering steps do in the run with \<open>request.retries = k\<close>. The result is what the last
  run returned, the number of retries that were made and the database.
\<close>

function run_with_retries ::
  "nat \<Rightarrow> (nat \<Rightarrow> render_outcome) \<Rightarrow> datetime \<Rightarrow> nat \<Rightarrow> db \<Rightarrow> task_result \<times> nat \<times> db" where
  "run_with_retries retries outcome now rid db =
     (case generate_flashback_reel_video retries (outcome retries) now rid db of
        (Retry countdown, db') \<Rightarrow> run_with_retries (Suc retries) outcome now rid db'
      | (res, db') \<Rightarrow> (res, retries, db'))"
  by pat_completeness auto
termination
proof (relation "measure (\<lambda>(retries, outcome, now, rid, db). max_retries - retries)")
  show "wf (measure (\<lambda>(retries, outcome, now, rid, db). max_retries - retries))" by simp
next
  fix retries :: nat and outcome :: "nat \<Rightarrow> render_outcome" and now :: datetime
    and rid :: nat and db db' :: db and x :: task_result and countdown :: nat
  assume "(x, db') = generate_flashback_reel_video retries (outcome retries) now rid db"
    and "x = Retry countdown"
  then have "generate_flashback_reel_video retries (outcome retries) now rid db
               = (Retry countdown, db')"
    by simp
  then have "retries < max_retries"
    by (auto simp: generate_flashback_reel_video_def Let_def mark_failed_def mark_completed_def
        split: option.splits if_splits render_outcome.splits prod.splits)
  then show "((Suc retries, outcome, now, rid, db'), retries, outcome, now, rid, db)
        \<in> measure (\<lambda>(retries, outcome, now, rid, db). max_retries - retries)"
    by simp
qed

declare run_with_retries.simps [simp del]

section \<open>Example data\<close>

definition empty_db :: db where
  "empty_db = \<lparr>users = [], images = [], memories = [], memory_photos = [], next_memory_id = 1,
     cache = (\<lambda>_. None), reels = (\<lambda>_. None), next_reel_id = 1, task_queue = [],
     transition_log = [], preferences = (\<lambda>_. None), notifications = []\<rparr>"

definition photo_on :: "nat \<Rightarrow> date \<Rightarrow> image" where
  "photo_on i d = \<lparr>image_id = i, image_user = 1, width = Some 4000, height = Some 3000,
     taken_at = Some (d, 0), created_at = (d, 0), album_count = 2, share_count = 1\<rparr>"

definition db_newyear :: db where
  "db_newyear = empty_db\<lparr>users := [1], images := [photo_on 1 (2023, 1, 5)]\<rparr>"

definition db_march :: db where
  "db_march = empty_db\<lparr>users := [1],
     images := map (\<lambda>i. photo_on i (2023, 3, 1 + int i)) [0..<25]\<rparr>"

definition db_june :: db where
  "db_june = empty_db\<lparr>users := [1], images := [photo_on 1 (2020, 6, 15), photo_on 2 (2022, 6, 15)]\<rparr>"

definition fresh_reel :: reel where
  "fresh_reel = \<lparr>reel_id = 1, reel_user = 1, title = ''Spring'', duration = 30,
     theme = ''classic'', status = pending, start_date = (2023, 3, 1), end_date = (2023, 3, 31),
     photo_count = 10, reel_photos = [0, 1, 2, 3, 4, 5, 6, 7, 8, 9], has_video_file = False,
     completed_at = None, error_message = []\<rparr>"

definition db_reel :: db where
  "db_reel = empty_db\<lparr>users := [1], reels := (\<lambda>_. None)(1 \<mapsto> fresh_reel), next_reel_id := 2,
     task_queue := [(1, 0)]\<rparr>"




definition two_runs_in_progress :: "operation list" where
  "two_runs_in_progress =
     [StartTask 0, FinishTask 0 (Raises ''boom'') ((2024, 1, 1), 0), RetryReel 1,
      StartTask 0, StartTask 0,
      FinishTask 0 Rendered ((2024, 1, 1), 1), FinishTask 0 Rendered ((2024, 1, 1), 2)]"

definition retry_during_render :: "operation list" where
  "retry_during_render =
     [StartTask 0, Cancel 1, RetryReel 1, FinishTask 0 Rendered ((2024, 1, 1), 0), StartTask 0]"

definition failures_overwrite :: "operation list" where
  "failures_overwrite =
     [StartTask 0, FinishTask 0 (Raises ''boom'') ((2024, 1, 1), 0), RetryReel 1,
      StartTask 0, StartTask 0,
      FinishTask 0 Rendered ((2024, 1, 1), 1), FinishTask 0 (Raises ''boom'') ((2024, 1, 1), 2),
      StartTask 0, Cancel 1, FinishTask 0 (Raises ''boom'') ((2024, 1, 1), 3)]"

definition photo_negative :: image where
  "photo_negative = \<lparr>image_id = 3, image_user = 1, width = Some (- 100000), height = Some 100000,
     taken_at = None, created_at = ((2024, 1, 1), 0), album_count = 0, share_count = 0\<rparr>"

definition memory_june :: memory where
  "memory_june = \<lparr>memory_id = 1, memory_user = 1, target_date = (2024, 6, 15),
     memory_significance_score = 2.5\<rparr>"

section \<open>Properties of the scorer\<close>

lemma score_photo_significance_expand:
  "score_photo_significance today photo =
     1.0 + real (share_count photo) * 2.0 + 0.5 + real (album_count photo) * 1.5
     + (case (width photo, height photo) of
          (Some w, Some h) \<Rightarrow> min (real_of_int (w * h) / 1000000 * 0.1) 2.0
        | _ \<Rightarrow> 0)
     + (case taken_at photo of
          Some t \<Rightarrow> max 0 (2.0 - real_of_int (date_diff_days today (dt_date t)) / 365.25 * 0.1)
        | None \<Rightarrow> 0)"
  by (simp add: score_photo_significance_def Let_def split: option.splits)

lemma quality_bonus_nonneg:
  assumes "area_nonneg photo"
  shows "0 \<le> (case (width photo, height photo) of
          (Some w, Some h) \<Rightarrow> min (real_of_int (w * h) / 1000000 * 0.1) (2.0::real)
        | _ \<Rightarrow> 0)"
proof (cases "width photo")
  case None
  then show ?thesis by simp
next
  case w: (Some w)
  show ?thesis
  proof (cases "height photo")
    case None
    with w show ?thesis by simp
  next
    case h: (Some h)
    from assms w h have "0 \<le> w * h" by (simp add: area_nonneg_def)
    then have "0 \<le> real_of_int (w * h)" by (simp only: of_int_0_le_iff)
    then have "0 \<le> real_of_int (w * h) / 1000000 * 0.1" by simp
    with w h show ?thesis by (simp del: of_int_mult)
  qed
qed

lemma recency_bonus_nonneg:
  "0 \<le> (case taken_at photo of
          Some t \<Rightarrow> max 0 (2.0 - real_of_int (date_diff_days today (dt_date t)) / 365.25 * 0.1)
        | None \<Rightarrow> (0::real))"
  by (simp split: option.splits)

lemma score_lower_bound:
  assumes "area_nonneg photo"
  shows "3 / 2 \<le> score_photo_significance today photo"
proof -
  have a: "0 \<le> real (share_count photo) * 2.0" by simp
  have b: "0 \<le> real (album_count photo) * 1.5" by simp
  from quality_bonus_nonneg [OF assms] recency_bonus_nonneg [where photo = photo and today = today] a b
  show ?thesis
    unfolding score_photo_significance_expand by linarith
qed

text \<open>
  C2. For every photo the significance score is 1.0 (base) + shareCount * 2.0 + 0.5
  (placeholder) + albumCount * 1.5 + min(megapixels * 0.1, 2.0) when width and height are
  known + max(0, 2.0 - yearsAgo * 0.1) when the capture time is present. The score is not
  negative when the product of the stored width and height is not negative; the quality
  term has no lower bound, so a row with one negative dimension can score below zero.
  A stored dimension of 0 is skipped by the code and contributes 0 in the formula.
\<close>

theorem score_photo_significance_formula:
  "score_photo_significance today photo =
     1.0 + real (share_count photo) * 2.0 + 0.5 + real (album_count photo) * 1.5
     + (case (width photo, height photo) of
          (Some w, Some h) \<Rightarrow> min (real_of_int (w * h) / 1000000 * 0.1) 2.0
        | _ \<Rightarrow> 0)
     + (case taken_at photo of
          Some t \<Rightarrow> max 0 (2.0 - real_of_int (date_diff_days today (dt_date t)) / 365.25 * 0.1)
        | None \<Rightarrow> 0)
   \<and> (area_nonneg photo \<longrightarrow> 0 \<le> score_photo_significance today photo)"
proof -
  have "area_nonneg photo \<longrightarrow> 0 \<le> score_photo_significance today photo"
    using score_lower_bound [of photo today] by auto
  then show ?thesis
    using score_photo_significance_expand [of today photo] by blast
qed

lemma toordinal_2024_06_15: "toordinal (2024, 6, 15) = 739052"
  by code_simp

lemma toordinal_2020_06_15: "toordinal (2020, 6, 15) = 737591"
  by code_simp

theorem score_photo_significance_formula_witness:
  "area_nonneg (photo_on 1 (2020, 6, 15))
   \<and> score_photo_significance (2024, 6, 15) (photo_on 1 (2020, 6, 15)) = 9.3
   \<and> 0 \<le> score_photo_significance (2024, 6, 15) (photo_on 1 (2020, 6, 15))"
  using score_photo_significance_formula [of "(2024, 6, 15)" "photo_on 1 (2020, 6, 15)"]
  by (simp add: area_nonneg_def photo_on_def date_diff_days_def dt_date_def
      toordinal_2024_06_15 toordinal_2020_06_15)

lemma score_photo_negative:
  "score_photo_significance today photo_negative = - 998.5"
  by (simp add: score_photo_significance_def photo_negative_def Let_def)

theorem score_negative_counterexample:
  "score_photo_significance (2024, 6, 15) photo_negative = - 998.5
   \<and> \<not> 0 \<le> score_photo_significance (2024, 6, 15) photo_negative"
  by (simp add: score_photo_negative)

section \<open>The significance threshold\<close>

lemma score_loop_keeps_all:
  assumes "\<forall>p \<in> set photos. area_nonneg p"
  shows "score_loop today photos = map (\<lambda>p. (p, score_photo_significance today p)) photos"
  using assms
proof (induction photos)
  case Nil
  then show ?case by simp
next
  case (Cons photo photos)
  from Cons.prems have "area_nonneg photo" by simp
  then have "3 / 2 \<le> score_photo_significance today photo"
    by (rule score_lower_bound)
  then have "score_photo_significance today photo \<ge> default_significance_threshold"
    by (simp add: default_significance_threshold_def)
  with Cons show ?case by (simp add: Let_def)
qed

lemma length_sort_desc [simp]: "length (sort_desc f xs) = length xs"
  by (simp add: sort_desc_def)

lemma set_sort_desc [simp]: "set (sort_desc f xs) = set xs"
  by (simp add: sort_desc_def)

text \<open>
  C9. For every photo whose stored width and height have a product that is not negative,
  \<open>score_photo_significance\<close> returns at least 1.5 (the 1.0 base plus the 0.5 placeholder).
  For a list of such photos the threshold of 1.0 excludes nothing:
  \<open>_score_photos_significance\<close> returns the 20 highest scored of all its input photos, every
  input photo when there are at most 20. A row with one negative dimension can score below
  the threshold and is then dropped.
\<close>

theorem threshold_never_excludes:
  assumes "\<forall>p \<in> set photos. area_nonneg p"
  shows "(\<forall>p \<in> set photos. 3 / 2 \<le> score_photo_significance today p)
    \<and> score_photos_significance today photos =
        take 20 (sort_desc snd (map (\<lambda>p. (p, score_photo_significance today p)) photos))
    \<and> length (score_photos_significance today photos) = min (length photos) 20
    \<and> (length photos \<le> 20 \<longrightarrow>
          set (map fst (score_photos_significance today photos)) = set photos)"
proof -
  have a: "\<forall>p \<in> set photos. 3 / 2 \<le> score_photo_significance today p"
    using assms by (blast intro: score_lower_bound)
  have b: "score_photos_significance today photos =
        take 20 (sort_desc snd (map (\<lambda>p. (p, score_photo_significance today p)) photos))"
    by (simp add: score_photos_significance_def max_photos_per_memory_def
        score_loop_keeps_all [OF assms])
  have c: "length (score_photos_significance today photos) = min (length photos) 20"
    unfolding b by simp
  have d: "length photos \<le> 20 \<longrightarrow>
          set (map fst (score_photos_significance today photos)) = set photos"
    unfolding b by (auto simp: image_iff)
  from a b c d show ?thesis by blast
qed

theorem threshold_never_excludes_witness:
  "list_all area_nonneg (images db_june)
   \<and> length (score_photos_significance (2024, 6, 15) (images db_june)) = 2
   \<and> set (map fst (score_photos_significance (2024, 6, 15) (images db_june))) = set (images db_june)"
proof -
  have h: "\<forall>p \<in> set (images db_june). area_nonneg p"
    by (simp add: db_june_def empty_db_def area_nonneg_def photo_on_def)
  have n: "length (images db_june) = 2"
    by (simp add: db_june_def empty_db_def)
  from threshold_never_excludes [OF h, of "(2024, 6, 15)"]
  have c: "length (score_photos_significance (2024, 6, 15) (images db_june))
            = min (length (images db_june)) 20"
    and d: "length (images db_june) \<le> 20 \<longrightarrow>
      set (map fst (score_photos_significance (2024, 6, 15) (images db_june))) = set (images db_june)"
    by blast+
  from c n have "length (score_photos_significance (2024, 6, 15) (images db_june)) = 2"
    by simp
  moreover from d n
  have "set (map fst (score_photos_significance (2024, 6, 15) (images db_june))) = set (images db_june)"
    by linarith
  moreover have "list_all area_nonneg (images db_june)"
    using h by (simp add: list_all_iff)
  ultimately show ?thesis by blast
qed


theorem threshold_excludes_counterexample:
  "\<not> 3 / 2 \<le> score_photo_significance (2024, 6, 15) photo_negative
   \<and> score_photos_significance (2024, 6, 15) [photo_negative] = []"
  by (simp add: score_photo_negative score_photos_significance_def Let_def
      default_significance_threshold_def sort_desc_def)

section \<open>Idempotent discovery\<close>

lemma create_memory_Inr:
  assumes "create_memory db user target scored = Inr (mem, db')"
  shows "memory_id mem = next_memory_id db" "memories db' = memories db @ [mem]"
    "cache db' = cache db" "users db' = users db"
    "memory_user mem = user" "target_date mem = target"
    "memory_rows_for db user target = []"
  using assms
  by (auto simp: create_memory_def Let_def memory_rows_for_def filter_empty_conv split: if_splits)

lemma filter_id_distinct:
  assumes "distinct (map f ms)" "m \<in> set ms"
  shows "filter (\<lambda>x. f x = f m) ms = [m]"
  using assms
proof (induction ms)
  case Nil then show ?case by simp
next
  case (Cons a ms)
  show ?case
  proof (cases "a = m")
    case True
    with Cons.prems have "f m \<notin> f ` set ms" by simp
    then have "\<forall>x \<in> set ms. f x \<noteq> f m" by (metis image_eqI)
    then have "filter (\<lambda>x. f x = f m) ms = []"
      by (simp add: filter_empty_conv)
    with True show ?thesis by simp
  next
    case False
    with Cons.prems have "m \<in> set ms" "f a \<noteq> f m" by auto
    with Cons show ?thesis by simp
  qed
qed

lemma hd_sort_key_in_set:
  assumes "sort_key f xs = y # ys"
  shows "y \<in> set xs"
proof -
  have "y \<in> set (sort_key f xs)" using assms by simp
  then show ?thesis by simp
qed

lemma discover_second_call:
  assumes wf: "memory_ids_wf db"
    and first: "discover_daily_memories db user_id target today1 = Inr (ms1, db1)"
  shows "discover_daily_memories db1 user_id target today2 = Inr (ms1, db1)"
proof (cases "cache db (user_id, target)")
  case (Some cached)
  with first have "db1 = db"
    by (auto simp: discover_daily_memories_def split: if_splits)
  with first Some show ?thesis
    by (auto simp: discover_daily_memories_def split: if_splits)
next
  case None
  note miss = None
  from first miss have usr: "user_id \<in> set (users db)"
    by (auto simp: discover_daily_memories_def Let_def split: if_splits)
  show ?thesis
  proof (cases "sort_key memory_id
                  (filter (\<lambda>m. memory_user m = user_id \<and> target_date m = target) (memories db))")
    case (Cons existing rest)
    with first miss usr have r: "ms1 = [existing]"
        "db1 = cache_set (user_id, target) [memory_id existing] db"
      by (auto simp: discover_daily_memories_def)
    from Cons have "existing \<in> set (filter (\<lambda>m. memory_user m = user_id \<and> target_date m = target) (memories db))"
      by (rule hd_sort_key_in_set)
    then have "existing \<in> set (memories db)" by simp
    with wf have "filter (\<lambda>x. memory_id x = memory_id existing) (memories db) = [existing]"
      by (simp add: memory_ids_wf_def filter_id_distinct)
    with r show ?thesis
      by (simp add: discover_daily_memories_def cache_set_def)
  next
    case Nil
    note noex = Nil
    define ph where "ph = (if find_photos_by_date db user_id target = []
                            then find_photos_with_date_expansion db user_id target
                            else Inr (find_photos_by_date db user_id target))"
    from first miss usr noex obtain photos where ph: "ph = Inr photos"
      by (cases ph) (auto simp: discover_daily_memories_def Let_def ph_def)
    show ?thesis
    proof (cases "photos = [] \<or> score_photos_significance today1 photos = []")
      case True
      with first miss usr noex ph have "ms1 = []" "db1 = cache_set (user_id, target) [] db"
        by (auto simp: discover_daily_memories_def Let_def ph_def split: if_splits)
      then show ?thesis
        by (simp add: discover_daily_memories_def cache_set_def)
    next
      case False
      with first miss usr noex ph obtain mem db' where
        cm: "create_memory db user_id target (score_photos_significance today1 photos) = Inr (mem, db')"
        and r: "ms1 = [mem]" "db1 = cache_set (user_id, target) [memory_id mem] db'"
        by (auto simp: discover_daily_memories_def Let_def ph_def split: if_splits sum.splits)
      note c = create_memory_Inr [OF cm]
      from wf c have "\<forall>x \<in> set (memories db). memory_id x \<noteq> memory_id mem"
        by (auto simp: memory_ids_wf_def)
      then have "filter (\<lambda>x. memory_id x = memory_id mem) (memories db) = []"
        by (simp add: filter_empty_conv)
      with c have "filter (\<lambda>x. memory_id x = memory_id mem) (memories db') = [mem]"
        by simp
      with r show ?thesis
        by (simp add: discover_daily_memories_def cache_set_def)
    qed
  qed
qed

lemma discover_rows:
  assumes first: "discover_daily_memories db user_id target today1 = Inr (ms1, db1)"
  shows "length (memory_rows_for db1 user_id target) \<le> max 1 (length (memory_rows_for db user_id target))"
proof -
  have "memories db1 = memories db \<or>
        (memory_rows_for db user_id target = [] \<and> (\<exists>mem. memories db1 = memories db @ [mem]))"
    using first
    by (auto simp: discover_daily_memories_def Let_def cache_set_def
        split: if_splits sum.splits option.splits list.splits dest: create_memory_Inr)
  then show ?thesis
    by (auto simp: memory_rows_for_def)
qed


text \<open>The existence check comes before the insert, so the uniqueness constraint of
  \<open>Memory\<close> never fires in a call.\<close>

lemma expansion_loop_error:
  assumes "expansion_loop db user_id target start_d end_d offsets photos = Inl e"
  shows "e \<noteq> IntegrityError"
  using assms
proof (induction offsets arbitrary: photos)
  case Nil
  then show ?case by simp
next
  case (Cons year_offset rest)
  then show ?case
    by (auto simp: replace_year_def check_date_fields_def Let_def
        split: sum.splits if_splits prod.splits)
qed

lemma sort_key_Nil_iff: "sort_key f xs = [] \<longleftrightarrow> xs = []"
  by (metis length_sort length_0_conv)

lemma discover_never_integrity_error:
  "discover_daily_memories db user_id target today \<noteq> Inl IntegrityError"
proof
  assume a: "discover_daily_memories db user_id target today = Inl IntegrityError"
  have exp: "find_photos_with_date_expansion db user_id target \<noteq> Inl IntegrityError"
    by (auto simp: find_photos_with_date_expansion_def date_add_def Let_def
        simp del: expansion_loop.simps
        split: sum.splits if_splits dest: expansion_loop_error)
  have cm: "create_memory db user_id target scored = Inl IntegrityError \<Longrightarrow>
        filter (\<lambda>m. memory_user m = user_id \<and> target_date m = target) (memories db) \<noteq> []" for scored
    by (auto simp: create_memory_def Let_def filter_empty_conv split: if_splits)
  from a exp show False
    by (auto simp: discover_daily_memories_def Let_def sort_key_Nil_iff
        split: option.splits if_splits list.splits sum.splits dest!: cm)
qed

text \<open>The existence check alone gives the same answer: when the first call was not served
  from the cache and found or created a memory, a second call returns it again even if the
  cache entry has been dropped in between.\<close>

lemma evict_and_set:
  assumes "cache db1 key = Some v"
  shows "cache_set key v (db1\<lparr>cache := (cache db1)(key := None)\<rparr>) = db1"
proof -
  have "(cache db1)(key \<mapsto> v) = cache db1" using assms by (simp add: fun_upd_idem_iff)
  then show ?thesis by (simp add: cache_set_def)
qed

lemma discover_after_eviction:
  assumes miss: "cache db (user_id, target) = None"
    and first: "discover_daily_memories db user_id target today1 = Inr (ms1, db1)"
    and found: "ms1 \<noteq> []"
  shows "discover_daily_memories (db1\<lparr>cache := (cache db1)((user_id, target) := None)\<rparr>)
           user_id target today2 = Inr (ms1, db1)"
proof -
  let ?key = "(user_id, target)"
  let ?ev = "db1\<lparr>cache := (cache db1)(?key := None)\<rparr>"
  from first miss have usr: "user_id \<in> set (users db)"
    by (auto simp: discover_daily_memories_def Let_def split: if_splits)
  show ?thesis
  proof (cases "sort_key memory_id
                  (filter (\<lambda>m. memory_user m = user_id \<and> target_date m = target) (memories db))")
    case (Cons existing rest)
    with first miss usr have r: "ms1 = [existing]"
        "db1 = cache_set ?key [memory_id existing] db"
      by (auto simp: discover_daily_memories_def)
    from r(2) have c: "cache db1 ?key = Some [memory_id existing]"
      and same: "memories db1 = memories db" "users db1 = users db"
      by (simp_all add: cache_set_def)
    have "discover_daily_memories ?ev user_id target today2
            = Inr ([existing], cache_set ?key [memory_id existing] ?ev)"
      using Cons usr same by (simp add: discover_daily_memories_def Let_def)
    with r(1) evict_and_set [OF c] show ?thesis by simp
  next
    case Nil
    define ph where "ph = (if find_photos_by_date db user_id target = []
                            then find_photos_with_date_expansion db user_id target
                            else Inr (find_photos_by_date db user_id target))"
    from first miss usr Nil obtain photos where ph: "ph = Inr photos"
      by (cases ph) (auto simp: discover_daily_memories_def Let_def ph_def)
    from first miss usr Nil ph found obtain mem db' where
      cm: "create_memory db user_id target (score_photos_significance today1 photos) = Inr (mem, db')"
      and r: "ms1 = [mem]" "db1 = cache_set ?key [memory_id mem] db'"
      by (auto simp: discover_daily_memories_def Let_def ph_def split: if_splits sum.splits)
    note c = create_memory_Inr [OF cm]
    from r(2) have ch: "cache db1 ?key = Some [memory_id mem]"
      and same: "memories db1 = memories db'" "users db1 = users db'"
      by (simp_all add: cache_set_def)
    from c(7) have "filter (\<lambda>m. memory_user m = user_id \<and> target_date m = target) (memories db) = []"
      by (simp add: memory_rows_for_def)
    with c have "filter (\<lambda>m. memory_user m = user_id \<and> target_date m = target) (memories db1) = [mem]"
      using same by simp
    then have "discover_daily_memories ?ev user_id target today2
            = Inr ([mem], cache_set ?key [memory_id mem] ?ev)"
      using usr same c(4) by (simp add: discover_daily_memories_def Let_def)
    with r(1) evict_and_set [OF ch] show ?thesis by simp
  qed
qed

text \<open>
  C1. Discovery is idempotent: when a call of \<open>discover_daily_memories\<close> for (user, date)
  has returned, a second call (with the cache entry the first one left) returns memories with
  the same ids and the same photos, changes no \<open>Memory\<close> row, and the two calls together
  add at most one row for that (user, date), and none when one was there.
\<close>

theorem discover_daily_memories_idempotent:
  assumes "memory_ids_wf db"
    and "discover_daily_memories db user_id target today1 = Inr (ms1, db1)"
  shows "\<exists>ms2 db2. discover_daily_memories db1 user_id target today2 = Inr (ms2, db2)
          \<and> map memory_id ms2 = map memory_id ms1
          \<and> map (photos_of_memory db2 \<circ> memory_id) ms2 = map (photos_of_memory db1 \<circ> memory_id) ms1
          \<and> memories db2 = memories db1
          \<and> length (memory_rows_for db2 user_id target)
               \<le> max 1 (length (memory_rows_for db user_id target))"
  using discover_second_call [OF assms, of today2] discover_rows [OF assms(2)]
  by simp


lemma june_exact:
  "find_photos_by_date db_june 1 (2024, 6, 15) = [photo_on 2 (2022, 6, 15), photo_on 1 (2020, 6, 15)]"
  by code_simp

lemma june_scored:
  "score_photos_significance (2024, 6, 15) [photo_on 2 (2022, 6, 15), photo_on 1 (2020, 6, 15)]
     = [(photo_on 2 (2022, 6, 15), 138793 / 14610), (photo_on 1 (2020, 6, 15), 93 / 10)]"
  by code_simp

lemma db_june_tables:
  "cache db_june k = None" "users db_june = [1]" "memories db_june = []"
  "memory_photos db_june = []" "next_memory_id db_june = 1"
  by (simp_all add: db_june_def empty_db_def)

lemma image_id_photo_on: "image_id (photo_on i d) = i"
  by (simp add: photo_on_def)

lemma june_first_call:
  "\<exists>ms1 db1. discover_daily_memories db_june 1 (2024, 6, 15) (2024, 6, 15) = Inr (ms1, db1)
      \<and> map memory_id ms1 = [1] \<and> map (photos_of_memory db1 \<circ> memory_id) ms1 = [[2, 1]]"
  by (simp add: discover_daily_memories_def june_exact june_scored create_memory_def Let_def
      cache_set_def photos_of_memory_def enumerate_eq_zip db_june_tables image_id_photo_on
      del: One_nat_def)

theorem discover_daily_memories_idempotent_witness:
  "memory_ids_wf db_june
   \<and> (\<exists>ms1 db1 ms2 db2.
         discover_daily_memories db_june 1 (2024, 6, 15) (2024, 6, 15) = Inr (ms1, db1)
       \<and> map memory_id ms1 = [1]
       \<and> discover_daily_memories db1 1 (2024, 6, 15) (2024, 6, 16) = Inr (ms2, db2)
       \<and> map memory_id ms2 = [1]
       \<and> map (photos_of_memory db2 \<circ> memory_id) ms2 = [[2, 1]]
       \<and> length (memory_rows_for db2 1 (2024, 6, 15)) \<le> 1)"
proof -
  have wf: "memory_ids_wf db_june"
    by (simp add: memory_ids_wf_def db_june_tables)
  from june_first_call obtain ms1 db1 where
    first: "discover_daily_memories db_june 1 (2024, 6, 15) (2024, 6, 15) = Inr (ms1, db1)"
    and ids: "map memory_id ms1 = [1]"
    and ph: "map (photos_of_memory db1 \<circ> memory_id) ms1 = [[2, 1]]"
    by (elim exE conjE)
  have none: "memory_rows_for db_june 1 (2024, 6, 15) = []"
    by (simp add: memory_rows_for_def db_june_tables)
  from discover_daily_memories_idempotent [OF wf first, of "(2024, 6, 16)"]
  obtain ms2 db2 where
    "discover_daily_memories db1 1 (2024, 6, 15) (2024, 6, 16) = Inr (ms2, db2)"
    "map memory_id ms2 = map memory_id ms1"
    "map (photos_of_memory db2 \<circ> memory_id) ms2 = map (photos_of_memory db1 \<circ> memory_id) ms1"
    "length (memory_rows_for db2 1 (2024, 6, 15))
               \<le> max 1 (length (memory_rows_for db_june 1 (2024, 6, 15)))"
    by blast
  with first ids ph none wf show ?thesis by auto
qed

section \<open>The expanded pass\<close>

lemma leap_window_dates:
  "date_add (2024, 3, 7) (- 7) = Inr (2024, 2, 29)" "date_add (2024, 3, 7) 7 = Inr (2024, 3, 14)"
  "date_add (2024, 2, 22) (- 7) = Inr (2024, 2, 15)" "date_add (2024, 2, 22) 7 = Inr (2024, 2, 29)"
  "replace_year (2024, 2, 29) 2023 = Inl (ValueError DayOutOfRange)"
  "replace_year (2024, 2, 15) 2023 = Inr (2023, 2, 15)"
  by code_simp+

lemma expansion_raises_on_leap_day_window:
  assumes "target = (2024, 3, 7) \<or> target = (2024, 2, 22)"
  shows "find_photos_with_date_expansion db user_id target = Inl (ValueError DayOutOfRange)"
  using assms
  by (auto simp: find_photos_with_date_expansion_def date_expansion_days_def leap_window_dates
      date_year_def)

text \<open>
  C10. \<open>discover_daily_memories\<close> is not total on its dates: for the target dates 7 March
  2024 and 22 February 2024, whose window of seven days has 29 February as an end point, a call
  that reaches the expanded pass (no cache entry, no stored memory, no photo on the exact
  date) raises \<open>ValueError\<close> from \<open>date.replace\<close> instead of returning a list of memories.
\<close>

theorem discover_raises_on_leap_day_window:
  assumes "target = (2024, 3, 7) \<or> target = (2024, 2, 22)"
    and "cache db (user_id, target) = None"
    and "user_id \<in> set (users db)"
    and "memory_rows_for db user_id target = []"
    and "find_photos_by_date db user_id target = []"
  shows "discover_daily_memories db user_id target today = Inl (ValueError DayOutOfRange)"
proof -
  from assms(4) have "sort_key memory_id
     (filter (\<lambda>m. memory_user m = user_id \<and> target_date m = target) (memories db)) = []"
    by (simp add: memory_rows_for_def)
  with assms(2,3,5) expansion_raises_on_leap_day_window [OF assms(1), of db user_id]
  show ?thesis
    by (simp add: discover_daily_memories_def)
qed

lemma newyear_tables:
  "cache db_newyear k = None" "users db_newyear = [1]" "memories db_newyear = []"
  "images db_newyear = [photo_on 1 (2023, 1, 5)]"
  by (simp_all add: db_newyear_def empty_db_def)

lemma newyear_exact_march: "find_photos_by_date db_newyear 1 (2024, 3, 7) = []"
  by code_simp

theorem discover_raises_on_leap_day_window_witness:
  "cache db_newyear (1, (2024, 3, 7)) = None \<and> 1 \<in> set (users db_newyear)
   \<and> memory_rows_for db_newyear 1 (2024, 3, 7) = []
   \<and> find_photos_by_date db_newyear 1 (2024, 3, 7) = []
   \<and> discover_daily_memories db_newyear 1 (2024, 3, 7) (2024, 3, 7) = Inl (ValueError DayOutOfRange)"
proof -
  have h: "cache db_newyear (1, (2024, 3, 7)) = None" "1 \<in> set (users db_newyear)"
     "memory_rows_for db_newyear 1 (2024, 3, 7) = []"
    by (simp_all add: newyear_tables memory_rows_for_def)
  from discover_raises_on_leap_day_window [OF _ h newyear_exact_march, of "(2024, 3, 7)"]
  have "discover_daily_memories db_newyear 1 (2024, 3, 7) (2024, 3, 7) = Inl (ValueError DayOutOfRange)"
    by simp
  with h newyear_exact_march show ?thesis by simp
qed

lemma newyear_window:
  "date_add (2023, 1, 3) (- 7) = Inr (2022, 12, 27)" "date_add (2023, 1, 3) 7 = Inr (2023, 1, 10)"
  by code_simp+

lemma newyear_exact: "find_photos_by_date db_newyear 1 (2024, 1, 3) = []"
  by code_simp

lemma newyear_in_window:
  "photos_in_range db_newyear 1 (2022, 12, 27) (2023, 1, 10) = [photo_on 1 (2023, 1, 5)]"
  by code_simp

lemma newyear_expansion: "find_photos_with_date_expansion db_newyear 1 (2024, 1, 3) = Inr []"
  by code_simp

text \<open>
  C7. The expanded pass at the target date 3 January 2024, for a user whose only photo was
  taken on 5 January 2023: the exact pass finds nothing, the photo lies within seven days of
  the anniversary 3 January 2023, and the expanded pass gathers no photo, so that discovery
  returns no memory. The window of the code runs from 27 December 2023 moved into 2023 to
  10 January 2024 moved into 2023, which is empty.
\<close>

theorem expansion_misses_photo_across_new_year:
  "find_photos_by_date db_newyear 1 (2024, 1, 3) = []
   \<and> date_add (2023, 1, 3) (- 7) = Inr (2022, 12, 27)
   \<and> date_add (2023, 1, 3) 7 = Inr (2023, 1, 10)
   \<and> photos_in_range db_newyear 1 (2022, 12, 27) (2023, 1, 10) = [photo_on 1 (2023, 1, 5)]
   \<and> find_photos_with_date_expansion db_newyear 1 (2024, 1, 3) = Inr []
   \<and> discover_daily_memories db_newyear 1 (2024, 1, 3) (2024, 1, 3)
        = Inr ([], cache_set (1, (2024, 1, 3)) [] db_newyear)"
  by (simp add: newyear_window newyear_exact newyear_in_window newyear_expansion
      discover_daily_memories_def newyear_tables del: One_nat_def)

section \<open>Reel photo selection\<close>

lemma lookup_default_update:
  "lookup_default (AList.update k v al) d = (if d = k then v else lookup_default al d)"
  by (simp add: lookup_default_def update_conv')

lemma lookup_group_by_date:
  "lookup_default (group_by_date xs acc) d =
     lookup_default acc d @ filter (\<lambda>x. photo_date (fst x) = d) xs"
proof (induction xs arbitrary: acc)
  case Nil
  then show ?case by simp
next
  case (Cons x xs)
  obtain photo score where x: "x = (photo, score)" by (cases x)
  show ?case
    unfolding x by (simp add: Cons.IH lookup_default_update)
qed

lemma keys_group_by_date:
  "fst ` set (group_by_date xs acc) = fst ` set acc \<union> (photo_date \<circ> fst) ` set xs"
proof (induction xs arbitrary: acc)
  case Nil
  then show ?case by simp
next
  case (Cons x xs)
  obtain photo score where x: "x = (photo, score)" by (cases x)
  show ?case
    unfolding x by (simp add: Cons.IH dom_update)
qed

lemma distinct_group_by_date:
  "distinct (map fst acc) \<Longrightarrow> distinct (map fst (group_by_date xs acc))"
proof (induction xs arbitrary: acc)
  case Nil
  then show ?case by simp
next
  case (Cons x xs)
  obtain photo score where x: "x = (photo, score)" by (cases x)
  show ?case
    unfolding x using Cons.prems by (simp add: Cons.IH distinct_update)
qed

lemma partition_length:
  assumes "distinct ds" "\<forall>x \<in> set xs. f x \<in> set ds"
  shows "sum_list (map (\<lambda>d. length (filter (\<lambda>x. f x = d) xs)) ds) = length xs"
  using assms
proof (induction ds arbitrary: xs)
  case Nil
  then show ?case by (cases xs) auto
next
  case (Cons d ds)
  let ?ys = "filter (\<lambda>x. f x \<noteq> d) xs"
  have ys: "\<forall>x \<in> set ?ys. f x \<in> set ds" using Cons.prems by auto
  have dist: "distinct ds" "d \<notin> set ds" using Cons.prems by auto
  have same: "map (\<lambda>e. length (filter (\<lambda>x. f x = e) ?ys)) ds
              = map (\<lambda>e. length (filter (\<lambda>x. f x = e) xs)) ds"
  proof (rule map_cong [OF refl])
    fix e assume "e \<in> set ds"
    with dist have "e \<noteq> d" by auto
    then have "filter (\<lambda>x. f x = e) ?ys = filter (\<lambda>x. f x = e) xs"
      by (auto intro: filter_cong)
    then show "length (filter (\<lambda>x. f x = e) ?ys) = length (filter (\<lambda>x. f x = e) xs)" by simp
  qed
  from Cons.IH [OF dist(1) ys]
  have "sum_list (map (\<lambda>e. length (filter (\<lambda>x. f x = e) ?ys)) ds) = length ?ys" .
  with same have k: "sum_list (map (\<lambda>e. length (filter (\<lambda>x. f x = e) xs)) ds) = length ?ys"
    by (simp only:)
  have "length (filter (\<lambda>x. f x = d) xs) + length ?ys = length xs"
    using sum_length_filter_compl [of "\<lambda>x. f x = d" xs] by simp
  with k show ?case by simp
qed


lemma best_per_date_ok:
  assumes "\<forall>d \<in> set ds. lookup_default pbd d \<noteq> []"
  shows "\<exists>sel. best_per_date pbd ds = Inr sel \<and> length sel = length ds
            \<and> set sel \<subseteq> fst ` (\<Union>d \<in> set ds. set (lookup_default pbd d))"
  using assms
proof (induction ds)
  case Nil
  then show ?case by simp
next
  case (Cons d ds)
  then obtain sel where sel: "best_per_date pbd ds = Inr sel" "length sel = length ds"
      "set sel \<subseteq> fst ` (\<Union>d \<in> set ds. set (lookup_default pbd d))"
    by auto
  from Cons.prems have ne: "sort_desc snd (lookup_default pbd d) \<noteq> []"
    by (metis length_sort_desc length_0_conv list.set_intros(1))
  then obtain photo score rest where hd: "sort_desc snd (lookup_default pbd d) = (photo, score) # rest"
    by (cases "sort_desc snd (lookup_default pbd d)") auto
  then have "(photo, score) \<in> set (sort_desc snd (lookup_default pbd d))" by simp
  then have mem: "(photo, score) \<in> set (lookup_default pbd d)" by simp
  have "best_per_date pbd (d # ds) = Inr (photo # sel)"
    by (simp add: hd sel)
  moreover have "photo \<in> fst ` (\<Union>d \<in> set (d # ds). set (lookup_default pbd d))"
    using mem by force
  ultimately show ?case using sel by auto
qed

lemma pick_dates_ok:
  assumes "\<forall>i \<in> set is. i * step < length dates"
  shows "\<exists>ds. pick_dates dates step is = Inr ds \<and> length ds = length is \<and> set ds \<subseteq> set dates"
  using assms
proof (induction "is")
  case Nil
  then show ?case by simp
next
  case (Cons i "is")
  then obtain ds where "pick_dates dates step is = Inr ds" "length ds = length is" "set ds \<subseteq> set dates"
    by auto
  moreover from Cons.prems have "i * step < length dates" by simp
  ultimately show ?case by simp
qed

lemma stride_in_range:
  fixes count len i :: nat
  assumes "count < len" "0 < count" "i < count"
  shows "i * (len div count) < len"
proof -
  have s: "0 < len div count" using assms by (simp add: div_greater_zero_iff)
  have "i * (len div count) + len div count = (Suc i) * (len div count)" by simp
  also have "\<dots> \<le> count * (len div count)"
    using assms(3) by (intro mult_le_mono1) simp
  also have "\<dots> \<le> len" by simp
  finally show ?thesis using s by linarith
qed


lemma sum_list_pred:
  assumes "\<forall>d \<in> set ds. 1 \<le> g d"
  shows "sum_list (map (\<lambda>d. g d - 1) ds) + length ds = sum_list (map g ds)"
  using assms by (induction ds) (auto simp: algebra_simps)

lemma length_concat_drop1:
  "length (concat (map (\<lambda>d. drop (Suc 0) (h d)) ds))
     = sum_list (map (\<lambda>d. length (h d) - Suc 0) ds)"
  by (induction ds) auto

lemma apply_temporal_distribution_ok:
  assumes big: "count < length scored_photos" and pos: "0 < count"
  shows "\<exists>sel. apply_temporal_distribution scored_photos count = Inr sel
           \<and> length sel = count \<and> set sel \<subseteq> fst ` set scored_photos"
proof -
  define pbd where "pbd = group_by_date scored_photos []"
  define dates where "dates = sort (map fst pbd)"
  have emp: "lookup_default [] d = []" for d
    by (simp add: lookup_default_def)
  have grp: "lookup_default pbd d = filter (\<lambda>x. photo_date (fst x) = d) scored_photos" for d
    by (simp add: pbd_def lookup_group_by_date emp)
  have keys: "set dates = (photo_date \<circ> fst) ` set scored_photos"
    using keys_group_by_date [of scored_photos "[]"] by (simp add: dates_def pbd_def)
  have dist: "distinct dates"
    using distinct_group_by_date [of "[]" scored_photos] by (simp add: dates_def pbd_def)
  have ne: "\<forall>d \<in> set dates. lookup_default pbd d \<noteq> []"
    unfolding keys grp by (auto simp: filter_empty_conv)
  have sub: "set (lookup_default pbd d) \<subseteq> set scored_photos" for d
    unfolding grp by auto
  have unfold: "apply_temporal_distribution scored_photos count =
      (if length dates \<le> count
           then (case best_per_date pbd dates of
                   Inl e \<Rightarrow> Inl e
                 | Inr selected \<Rightarrow>
                     let remaining_count = count - length selected
                     in if remaining_count > 0
                        then let all_remaining =
                                   concat (map (\<lambda>date_key. drop 1 (lookup_default pbd date_key))
                                              dates);
                                 all_remaining = sort_desc snd all_remaining
                             in Inr (selected @ map fst (take remaining_count all_remaining))
                        else Inr selected)
           else
             let date_step = length dates div count
             in (case pick_dates dates date_step [0..<count] of
                   Inl e \<Rightarrow> Inl e
                 | Inr selected_dates \<Rightarrow> best_per_date pbd selected_dates))"
    unfolding pbd_def dates_def apply_temporal_distribution_def Let_def using big pos by simp
  show ?thesis
  proof (cases "length dates \<le> count")
    case True
    from best_per_date_ok [OF ne] obtain sel where sel: "best_per_date pbd dates = Inr sel"
        "length sel = length dates"
        "set sel \<subseteq> fst ` (\<Union>d \<in> set dates. set (lookup_default pbd d))"
      by blast
    from sel(3) sub have selsub: "set sel \<subseteq> fst ` set scored_photos" by blast
    define rem where "rem = sort_desc snd (concat (map (\<lambda>d. drop 1 (lookup_default pbd d)) dates))"
    have remsub: "set rem \<subseteq> set scored_photos"
      unfolding rem_def using sub by (fastforce dest: in_set_dropD)
    have "\<forall>d \<in> set dates. 1 \<le> length (lookup_default pbd d)"
      using ne by (simp add: Suc_le_eq)
    from sum_list_pred [OF this]
    have "length rem + length dates = sum_list (map (\<lambda>d. length (lookup_default pbd d)) dates)"
      by (simp add: rem_def length_concat_drop1)
    also have "\<dots> = length scored_photos"
      unfolding grp using partition_length [OF dist, of scored_photos "photo_date \<circ> fst"] keys
      by simp
    finally have remlen: "count - length dates \<le> length rem" using big by linarith
    have res: "apply_temporal_distribution scored_photos count =
        (if count - length dates > 0 then Inr (sel @ map fst (take (count - length dates) rem))
         else Inr sel)"
      unfolding unfold using True by (simp add: sel Let_def rem_def)
    show ?thesis
    proof (cases "count - length dates > 0")
      case gt: True
      have "length (sel @ map fst (take (count - length dates) rem)) = count"
        using remlen True sel(2) by simp
      moreover have "set (sel @ map fst (take (count - length dates) rem)) \<subseteq> fst ` set scored_photos"
        using selsub remsub by (auto dest!: in_set_takeD)
      ultimately show ?thesis using res gt by simp
    next
      case False
      with True sel(2) have "length sel = count" by simp
      with res False selsub show ?thesis by simp
    qed
  next
    case False
    then have lt: "count < length dates" by simp
    have "\<forall>i \<in> set [0..<count]. i * (length dates div count) < length dates"
      using stride_in_range [OF lt pos] by simp
    from pick_dates_ok [OF this] obtain ds where ds:
      "pick_dates dates (length dates div count) [0..<count] = Inr ds"
      "length ds = count" "set ds \<subseteq> set dates"
      by auto
    from ne ds(3) have "\<forall>d \<in> set ds. lookup_default pbd d \<noteq> []" by blast
    from best_per_date_ok [OF this] obtain sel where sel: "best_per_date pbd ds = Inr sel"
        "length sel = length ds"
        "set sel \<subseteq> fst ` (\<Union>d \<in> set ds. set (lookup_default pbd d))"
      by blast
    from sel(3) sub have selsub: "set sel \<subseteq> fst ` set scored_photos" by blast
    have "apply_temporal_distribution scored_photos count = Inr sel"
      unfolding unfold using False by (simp add: Let_def ds sel)
    with sel(2) ds(2) selsub show ?thesis by simp
  qed
qed

lemma clamp_count_bounds: "10 \<le> clamp_count count \<and> clamp_count count \<le> 20"
proof -
  have "10 \<le> nat (max 10 (min c 20)) \<and> nat (max 10 (min c 20)) \<le> 20" for c :: int
    by linarith
  then show ?thesis
    by (simp add: clamp_count_def min_photos_for_reel_def max_photos_per_reel_def Let_def
        split: option.splits)
qed


lemma advanced_photo_selection_ok:
  assumes "count < length photos" "0 < count"
  shows "\<exists>res. advanced_photo_selection today photos count = Inr res
           \<and> length res = count \<and> set res \<subseteq> set photos"
proof -
  let ?scored = "sort_desc snd (map (\<lambda>photo. (photo, score_photo_significance today photo)) photos)"
  have "count < length ?scored" using assms by simp
  from apply_temporal_distribution_ok [OF this assms(2)]
  obtain sel where sel: "apply_temporal_distribution ?scored count = Inr sel"
      "length sel = count" "set sel \<subseteq> fst ` set ?scored"
    by blast
  have "fst ` set ?scored = set photos" by (simp add: image_image)
  with sel show ?thesis
    by (simp add: advanced_photo_selection_def Let_def)
qed

lemma select_representative_photos_ok:
  "\<exists>res. select_representative_photos db today user_id start_d end_d count = Inr res
     \<and> length res = min (length (photos_in_range db user_id start_d end_d)) (clamp_count count)
     \<and> set res \<subseteq> set (photos_in_range db user_id start_d end_d)"
proof -
  let ?photos = "sort_key taken_key (photos_in_range db user_id start_d end_d)"
  show ?thesis
  proof (cases "length ?photos \<le> clamp_count count")
    case True
    then show ?thesis
      by (simp add: select_representative_photos_def Let_def)
  next
    case False
    then have big: "clamp_count count < length ?photos" by simp
    have pos: "0 < clamp_count count" using clamp_count_bounds [of count] by linarith
    from advanced_photo_selection_ok [OF big pos, of today]
    obtain res where "advanced_photo_selection today ?photos (clamp_count count) = Inr res"
      "length res = clamp_count count" "set res \<subseteq> set ?photos" by blast
    with False show ?thesis
      by (simp add: select_representative_photos_def Let_def)
  qed
qed


lemma march_in_range: "length (photos_in_range db_march 1 (2023, 3, 1) (2023, 3, 31)) = 25"
  by code_simp



section \<open>Reel requests and notifications\<close>

text \<open>
  C6. For an existing user, \<open>create_reel_request\<close> raises the not-enough-photos
  \<open>ValueError\<close> when the selection has fewer than 10 photos, and otherwise stores and returns
  a reel with status \<open>pending\<close>, the duration clamped into [10, 300] (30 when none is given),
  the theme replaced by \<open>classic\<close> unless it is one of the four supported themes, and at least
  10 photos.
\<close>

theorem create_reel_request_contract:
  assumes "user_id \<in> set (users db)"
  shows "\<exists>photos. select_representative_photos db today user_id start_d end_d None = Inr photos \<and>
     (if length photos < 10
      then create_reel_request db today user_id ttl start_d end_d thm dur async_processing
             = Inl (ValueError (NotEnoughPhotos 10 (length photos)))
      else \<exists>r db'. create_reel_request db today user_id ttl start_d end_d thm dur async_processing
                      = Inr (r, db')
             \<and> reels db' (reel_id r) = Some r
             \<and> status r = pending
             \<and> duration r = max 10 (min (case dur of None \<Rightarrow> 30 | Some d \<Rightarrow> d) 300)
             \<and> 10 \<le> duration r \<and> duration r \<le> 300
             \<and> theme r = (if thm \<in> {''classic'', ''modern'', ''vintage'', ''cinematic''}
                           then thm else ''classic'')
             \<and> photo_count r = length photos \<and> 10 \<le> photo_count r)"
proof -
  from select_representative_photos_ok [of db today user_id start_d end_d None]
  obtain photos where ph: "select_representative_photos db today user_id start_d end_d None = Inr photos"
    by blast
  show ?thesis
  proof (cases "length photos < 10")
    case True
    with assms ph show ?thesis
      by (simp add: create_reel_request_def min_photos_for_reel_def Let_def)
  next
    case False
    with assms ph show ?thesis
      by (simp add: create_reel_request_def min_photos_for_reel_def Let_def default_duration_def
          supported_themes_def start_reel_generation_def cong: option.case_cong)
  qed
qed

lemma march_selection:
  "\<exists>photos. select_representative_photos db_march (2024, 1, 1) 1 (2023, 3, 1) (2023, 3, 31) None = Inr photos
      \<and> length photos = 20"
proof -
  have c: "clamp_count None = 20"
    by (simp add: clamp_count_def min_photos_for_reel_def max_photos_per_reel_def)
  from select_representative_photos_ok [of db_march "(2024, 1, 1)" 1 "(2023, 3, 1)" "(2023, 3, 31)" None]
  show ?thesis unfolding march_in_range c by auto
qed

lemma newyear_selection:
  "select_representative_photos db_newyear (2024, 1, 1) 1 (2023, 1, 1) (2023, 12, 31) None
        = Inr [photo_on 1 (2023, 1, 5)]"
  by (simp add: select_representative_photos_def photos_in_range_def db_newyear_def empty_db_def
      photo_on_def dt_date_def clamp_count_def min_photos_for_reel_def max_photos_per_reel_def)

theorem create_reel_request_contract_witness:
  "1 \<in> set (users db_march) \<and> 1 \<in> set (users db_newyear)
   \<and> (\<exists>r db'. create_reel_request db_march (2024, 1, 1) 1 ''Spring'' (2023, 3, 1) (2023, 3, 31)
                   ''neon'' (Some 1000) True = Inr (r, db')
          \<and> status r = pending \<and> duration r = 300 \<and> theme r = ''classic'' \<and> photo_count r = 20)
   \<and> create_reel_request db_newyear (2024, 1, 1) 1 ''Winter'' (2023, 1, 1) (2023, 12, 31)
         ''modern'' None True = Inl (ValueError (NotEnoughPhotos 10 1))"
proof -
  have u1: "1 \<in> set (users db_march)" by (simp add: db_march_def empty_db_def)
  have u2: "1 \<in> set (users db_newyear)" by (simp add: db_newyear_def empty_db_def)
  from march_selection obtain photos where
    p: "select_representative_photos db_march (2024, 1, 1) 1 (2023, 3, 1) (2023, 3, 31) None = Inr photos"
       "length photos = 20" by blast
  from create_reel_request_contract [OF u1, of "(2024, 1, 1)" "(2023, 3, 1)" "(2023, 3, 31)"
        "''Spring''" "''neon''" "Some 1000" True] p
  have a: "\<exists>r db'. create_reel_request db_march (2024, 1, 1) 1 ''Spring'' (2023, 3, 1) (2023, 3, 31)
                   ''neon'' (Some 1000) True = Inr (r, db')
          \<and> status r = pending \<and> duration r = 300 \<and> theme r = ''classic'' \<and> photo_count r = 20"
    by auto
  from create_reel_request_contract [OF u2, of "(2024, 1, 1)" "(2023, 1, 1)" "(2023, 12, 31)"
        "''Winter''" "''modern''" None True] newyear_selection
  have b: "create_reel_request db_newyear (2024, 1, 1) 1 ''Winter'' (2023, 1, 1) (2023, 12, 31)
         ''modern'' None True = Inl (ValueError (NotEnoughPhotos 10 1))"
    by simp
  from u1 u2 a b show ?thesis by blast
qed

text \<open>
  C8. \<open>should_send_notification\<close> is true exactly when the user's preferences (if any) enable
  both notifications and the feature, no notification exists for this user and memory, the
  user has fewer than 3 notifications sent since midnight of the current day, and the
  memory's significance score is not below 2.0.
\<close>

theorem should_send_notification_iff:
  "should_send_notification db user_id mem now \<longleftrightarrow>
     (case preferences db user_id of
        Some prefs \<Rightarrow> enable_notifications prefs \<and> feature_enabled prefs
      | None \<Rightarrow> True)
     \<and> \<not> (\<exists>n \<in> set (notifications db).
             notification_user n = user_id \<and> notification_memory n = memory_id mem)
     \<and> length (filter (\<lambda>n. notification_user n = user_id \<and> sent_at n \<ge> (dt_date now, 0))
                       (notifications db)) < 3
     \<and> \<not> memory_significance_score mem < 2.0"
  by (auto simp: should_send_notification_def Let_def max_notifications_per_day_def
      filter_empty_conv split: option.splits)

theorem should_send_notification_iff_witness:
  "should_send_notification empty_db 1 memory_june ((2024, 6, 15), 0)
   \<and> \<not> should_send_notification empty_db 1
         (memory_june\<lparr>memory_significance_score := 1.9\<rparr>) ((2024, 6, 15), 0)"
  using should_send_notification_iff [of empty_db 1 memory_june "((2024, 6, 15), 0)"]
    should_send_notification_iff [of empty_db 1 "memory_june\<lparr>memory_significance_score := 1.9\<rparr>"
      "((2024, 6, 15), 0)"]
  by (simp add: empty_db_def memory_june_def)

section \<open>The reel state machine\<close>

lemma generate_flashback_reel_video_steps:
  "generate_flashback_reel_video retries outcome now rid db =
     (case task_begin rid db of
        Inl res \<Rightarrow> (res, db)
      | Inr (r, db') \<Rightarrow> task_finish retries outcome now rid r db')"
  by (simp add: generate_flashback_reel_video_def task_begin_def task_finish_def Let_def
      split: option.splits)




















lemma two_runs_in_progress_log:
  "transition_log (fst (run_operations two_runs_in_progress (db_reel, []))) =
     [(1, pending, processing), (1, processing, failed), (1, failed, pending),
      (1, pending, processing), (1, processing, processing),
      (1, processing, completed), (1, completed, completed)]"
  by code_simp

lemma retry_during_render_log:
  "transition_log (fst (run_operations retry_during_render (db_reel, []))) =
     [(1, pending, processing), (1, processing, failed), (1, failed, pending),
      (1, pending, completed), (1, completed, processing)]"
  by code_simp

lemma failures_overwrite_log:
  "transition_log (fst (run_operations failures_overwrite (db_reel, []))) =
     [(1, pending, processing), (1, processing, failed), (1, failed, pending),
      (1, pending, processing), (1, processing, processing),
      (1, processing, completed), (1, completed, failed),
      (1, failed, processing), (1, processing, failed), (1, failed, failed)]"
  by code_simp







lemma failing_attempt:
  assumes "reels db rid = Some r" "reel_id r = rid" "reel_photos r \<noteq> []"
  shows "\<exists>db'. generate_flashback_reel_video retries (Raises exc) now rid db
            = (if retries < max_retries then Retry (60 * 2 ^ retries) else TaskFailed exc retries, db')
          \<and> reels db' rid = Some (r\<lparr>status := failed,
                                      error_message := ''Video generation failed: '' @ exc\<rparr>)"
  using assms
  by (simp add: generate_flashback_reel_video_def save_status_def mark_failed_def
      save_status_error_message_def Let_def)

lemma run_with_retries_again:
  assumes "generate_flashback_reel_video k (outcome k) now rid db = (Retry countdown, db')"
  shows "run_with_retries k outcome now rid db = run_with_retries (Suc k) outcome now rid db'"
  by (subst run_with_retries.simps) (simp add: assms)

lemma run_with_retries_last:
  assumes "generate_flashback_reel_video k (outcome k) now rid db = (TaskFailed m n, db')"
  shows "run_with_retries k outcome now rid db = (TaskFailed m n, k, db')"
  by (subst run_with_retries.simps) (simp add: assms)

text \<open>
  C5. A generation task for a stored reel with photos that has never completed, whose
  rendering raises in every run, is retried exactly 3 times; the last run returns an error
  result instead of raising, and leaves the reel \<open>failed\<close>, with the error message
  "Video generation failed: " followed by the text of the last exception, and with
  \<open>completed_at\<close> still null.
\<close>

theorem failing_job_ends_failed:
  assumes "reels db rid = Some r" "reel_id r = rid" "reel_photos r \<noteq> []" "completed_at r = None"
  shows "\<exists>db' r'. run_with_retries 0 (\<lambda>k. Raises (msg k)) now rid db
              = (TaskFailed (msg 3) 3, 3, db')
           \<and> reels db' rid = Some r'
           \<and> status r' = failed
           \<and> error_message r' = ''Video generation failed: '' @ msg 3
           \<and> completed_at r' = None"
proof -
  let ?out = "\<lambda>k. Raises (msg k)"
  let ?f = "\<lambda>k. r\<lparr>status := failed, error_message := ''Video generation failed: '' @ msg k\<rparr>"
  have step: "reel_id (?f k) = rid" "reel_photos (?f k) \<noteq> []" for k
    using assms by simp_all
  have three: "Suc (Suc (Suc 0)) = 3" by simp
  from failing_attempt [OF assms(1-3), of 0 "msg 0" now] obtain db1 where
    a0: "generate_flashback_reel_video 0 (?out 0) now rid db = (Retry 60, db1)"
    and r0: "reels db1 rid = Some (?f 0)"
    by (auto simp: max_retries_def)
  from failing_attempt [OF r0 step, of "Suc 0" "msg (Suc 0)" now] obtain db2 where
    a1: "generate_flashback_reel_video (Suc 0) (?out (Suc 0)) now rid db1 = (Retry 120, db2)"
    and r1: "reels db2 rid = Some (?f (Suc 0))"
    by (auto simp: max_retries_def)
  from failing_attempt [OF r1 step, of "Suc (Suc 0)" "msg (Suc (Suc 0))" now] obtain db3 where
    a2: "generate_flashback_reel_video (Suc (Suc 0)) (?out (Suc (Suc 0))) now rid db2
           = (Retry 240, db3)"
    and r2: "reels db3 rid = Some (?f (Suc (Suc 0)))"
    by (auto simp: max_retries_def)
  from failing_attempt [OF r2 step, of 3 "msg 3" now] obtain db4 where
    a3: "generate_flashback_reel_video 3 (?out 3) now rid db3 = (TaskFailed (msg 3) 3, db4)"
    and r3: "reels db4 rid = Some (?f 3)"
    by (auto simp: max_retries_def)
  have "run_with_retries 0 ?out now rid db = run_with_retries (Suc 0) ?out now rid db1"
    using a0 by (rule run_with_retries_again)
  also have "\<dots> = run_with_retries (Suc (Suc 0)) ?out now rid db2"
    using a1 by (rule run_with_retries_again)
  also have "\<dots> = run_with_retries (Suc (Suc (Suc 0))) ?out now rid db3"
    using a2 by (rule run_with_retries_again)
  also have "\<dots> = run_with_retries 3 ?out now rid db3"
    by (simp only: three)
  also have "\<dots> = (TaskFailed (msg 3) 3, 3, db4)"
    using a3 by (rule run_with_retries_last)
  finally show ?thesis using r3 assms(4) by simp
qed

theorem failing_job_ends_failed_witness:
  "reels db_reel 1 = Some fresh_reel \<and> reel_id fresh_reel = 1 \<and> reel_photos fresh_reel \<noteq> []
   \<and> completed_at fresh_reel = None
   \<and> (\<exists>db' r'. run_with_retries 0 (\<lambda>k. Raises ''boom'') ((2024, 1, 1), 0) 1 db_reel
              = (TaskFailed ''boom'' 3, 3, db')
           \<and> reels db' 1 = Some r'
           \<and> status r' = failed
           \<and> error_message r' = ''Video generation failed: boom''
           \<and> completed_at r' = None)"
proof -
  have h: "reels db_reel 1 = Some fresh_reel" "reel_id fresh_reel = 1" "reel_photos fresh_reel \<noteq> []"
    "completed_at fresh_reel = None"
    by (simp_all add: db_reel_def empty_db_def fresh_reel_def)
  from failing_job_ends_failed [OF h, of "\<lambda>k. ''boom''" "((2024, 1, 1), 0)"] h
  show ?thesis by simp
qed

end
